theory Spec2Isabelle
  imports Main
begin

section \<open>The local backend: internal/backend/local/backend.go\<close>

text \<open>
  Values of the libraries the backend talks to are kept abstract: a \<open>cty.Value\<close> is
  either the null value of a type or some other value, a \<open>configschema.Block\<close> is its
  list of attribute names, a \<open>statemgr.Full\<close> is a handle. A Go \<open>error\<close> is its message;
  a result \<open>(x, err)\<close> is a sum with the error on the left.
\<close>

datatype cty_type = EmptyObject | OtherType string

datatype cty_value = NullVal cty_type | KnownVal string

datatype block = Block "string list"

datatype statemgr_full = Filesystem string

datatype go_error = Errorf string

datatype severity = Error | Warning

record diagnostic =
  Severity :: severity
  Summary :: string
  Detail :: string

type_synonym diagnostics = "diagnostic list"

text \<open>
  \<open>Diagnostics.Append\<close> takes values of any type and looks at the dynamic type of each.
  The argument is modelled with one constructor for each type a caller in the sources
  passes, and for the nil interface.
\<close>

datatype append_item =
    ItemDiagnostic diagnostic
  | ItemDiagnostics diagnostics
  | ItemHclDiagnosticPointer diagnostic
  | ItemHclDiagnosticValue diagnostic
  | ItemError go_error
  | ItemNil

definition Append :: "diagnostics \<Rightarrow> append_item \<Rightarrow> string + diagnostics" where
  \<comment> \<open>Modelled from the spec: \<open>tfdiags.Diagnostics.Append\<close> is not among the sources.
      The spec gives diagnostics as an ordered collection of severity-tagged messages that
      is concatenated; the dispatch follows the \<open>tfdiags\<close> package as published: a
      \<open>tfdiags.Diagnostic\<close>, a \<open>tfdiags.Diagnostics\<close>, a pointer \<open>*hcl.Diagnostic\<close> and an
      \<open>error\<close> are appended, nil is skipped, and a value of any other type panics
      (\<open>Inl\<close>). An \<open>hcl.Diagnostic\<close> passed by value is such a value: it is not a
      pointer, and it is not an \<open>error\<close>, since \<open>Error()\<close> has a pointer receiver.\<close>
  "Append diags item =
     (case item of
        ItemDiagnostic d \<Rightarrow> Inr (diags @ [d])
      | ItemDiagnostics ds \<Rightarrow> Inr (diags @ ds)
      | ItemHclDiagnosticPointer d \<Rightarrow> Inr (diags @ [d])
      | ItemError err \<Rightarrow>
          Inr (diags @ [\<lparr>Severity = Error, Summary = (case err of Errorf m \<Rightarrow> m), Detail = []\<rparr>])
      | ItemNil \<Rightarrow> Inr diags
      | ItemHclDiagnosticValue d \<Rightarrow> Inl ''cannot append hcl.Diagnostic to diagnostics'')"

definition appendDiagnostics :: "diagnostics \<Rightarrow> diagnostics \<Rightarrow> diagnostics" where
  \<comment> \<open>\<open>Append\<close> at an argument of static type \<open>tfdiags.Diagnostics\<close>, as the walker calls
      it: there it appends and cannot panic (lemma \<open>Append_Diagnostics\<close> below).\<close>
  "appendDiagnostics diags ds = diags @ ds"


definition MissingStateStorageDiag :: diagnostic where
  "MissingStateStorageDiag =
     \<lparr>Severity = Error,
      Summary = ''Missing state store'',
      Detail = ''Attempted to call the PrepareConfig method on a missing state store. This is a bug in Terraform and should be reported''\<rparr>"

text \<open>The \<open>Error()\<close> method of an \<open>hcl.Diagnostic\<close> (a library outside this repository)
  prints subject, summary and detail as \<open>"%s: %s; %s"\<close>; the diagnostic above has no
  subject, which prints as \<open><nil>\<close>.\<close>

definition diagnosticError :: "diagnostic \<Rightarrow> string" where
  "diagnosticError d = ''<nil>: '' @ Summary d @ ''; '' @ Detail d"

text \<open>The interface \<open>backend.Backend\<close>: one field per method the local backend
  delegates to.\<close>

record backend =
  backendConfigSchema :: block
  backendPrepareConfig :: "cty_value \<Rightarrow> cty_value \<times> diagnostics"
  backendConfigure :: "cty_value \<Rightarrow> diagnostics"
  backendWorkspaces :: "go_error + string list"
  backendDeleteWorkspace :: "string \<Rightarrow> bool \<Rightarrow> go_error option"
  backendStateMgr :: "string \<Rightarrow> go_error + statemgr_full"

text \<open>The struct \<open>Local\<close>. \<open>Backend\<close> is an interface value: \<open>None\<close> is nil.
  \<open>ContextOpts\<close> and \<open>opLock\<close> play no part in the methods below and are left out.\<close>

record Local =
  states :: "string \<rightharpoonup> statemgr_full"
  OpInput :: bool
  OpValidation :: bool
  Backend :: "backend option"

definition NewWithBackend :: "backend option \<Rightarrow> go_error + Local" where
  "NewWithBackend b =
     (case b of
        None \<Rightarrow> Inl (Errorf ''nil backend.Backend pointer received when creating a local backend. This is an error in Terraform and should be reported.'')
      | Some be \<Rightarrow> Inr \<lparr>states = Map.empty, OpInput = False, OpValidation = False, Backend = Some be\<rparr>)"

definition ConfigSchema :: "Local \<Rightarrow> block" where
  "ConfigSchema b =
     (case Backend b of
        None \<Rightarrow> Block []
      | Some be \<Rightarrow> backendConfigSchema be)"

definition PrepareConfig :: "Local \<Rightarrow> cty_value \<Rightarrow> string + cty_value \<times> diagnostics" where
  \<comment> \<open>\<open>Inl\<close> is a panic. \<open>MissingStateStorageDiag\<close> is an \<open>hcl.Diagnostic\<close> variable and is
      passed to \<open>Append\<close> by value.\<close>
  "PrepareConfig b obj =
     (case Backend b of
        None \<Rightarrow>
          (case Append [] (ItemHclDiagnosticValue MissingStateStorageDiag) of
             Inl p \<Rightarrow> Inl p
           | Inr diags \<Rightarrow> Inr (NullVal EmptyObject, diags))
      | Some be \<Rightarrow> Inr (backendPrepareConfig be obj))"

definition Configure :: "Local \<Rightarrow> cty_value \<Rightarrow> string + diagnostics" where
  "Configure b obj =
     (case Backend b of
        None \<Rightarrow> Append [] (ItemHclDiagnosticValue MissingStateStorageDiag)
      | Some be \<Rightarrow> Inr (backendConfigure be obj))"

definition Workspaces :: "Local \<Rightarrow> go_error + string list" where
  "Workspaces b =
     (case Backend b of
        None \<Rightarrow> Inl (Errorf (diagnosticError MissingStateStorageDiag))
      | Some be \<Rightarrow> backendWorkspaces be)"

definition DeleteWorkspace :: "Local \<Rightarrow> string \<Rightarrow> bool \<Rightarrow> go_error option" where
  "DeleteWorkspace b name force =
     (case Backend b of
        None \<Rightarrow> Some (Errorf (diagnosticError MissingStateStorageDiag))
      | Some be \<Rightarrow> backendDeleteWorkspace be name force)"

definition StateMgr :: "Local \<Rightarrow> string \<Rightarrow> go_error + statemgr_full" where
  "StateMgr b name =
     (case Backend b of
        None \<Rightarrow> Inl (Errorf (diagnosticError MissingStateStorageDiag))
      | Some be \<Rightarrow> backendStateMgr be name)"

text \<open>The delegate of the package's test (\<open>testDelegateBackend\<close> with its three flags
  set): every multi-state method answers with its sentinel error.\<close>

definition testDelegateBackend :: backend where
  "testDelegateBackend =
     \<lparr>backendConfigSchema = Block [''path''],
      backendPrepareConfig = (\<lambda>obj. (obj, [])),
      backendConfigure = (\<lambda>obj. []),
      backendWorkspaces = Inl (Errorf ''states called''),
      backendDeleteWorkspace = (\<lambda>name force. Some (Errorf ''delete called'')),
      backendStateMgr = (\<lambda>name. Inl (Errorf ''state called''))\<rparr>"

text \<open>A \<open>Local\<close> with no backend: the struct literal \<open>&Local{}\<close>.\<close>

definition nilBackendLocal :: Local where
  "nilBackendLocal = \<lparr>states = Map.empty, OpInput = False, OpValidation = False, Backend = None\<rparr>"

section \<open>The dag package, as the walker uses it\<close>

text \<open>
  The graph of the walker embeds \<open>dag.AcyclicGraph\<close>. An edge \<open>(s, t)\<close> says that \<open>s\<close>
  depends on \<open>t\<close>. The vertex list stands for the vertex set in the order \<open>Vertices()\<close>
  hands it out; a theorem about every list covers every such order.
\<close>

record 'v graph =
  vertices :: "'v list"
  edges :: "('v \<times> 'v) list"

definition Vertices :: "'v graph \<Rightarrow> 'v list" where
  \<comment> \<open>Modelled from the spec: \<open>dag.Graph.Vertices\<close> is not among the sources; it returns
      a fresh list of the vertices, so a loop over it is not disturbed by removals.\<close>
  "Vertices g = vertices g"

definition UpEdges :: "'v graph \<Rightarrow> 'v \<Rightarrow> 'v list" where
  \<comment> \<open>Modelled from the spec: \<open>dag.Graph.UpEdges\<close> is not among the sources;
      \<open>up-edges(v)\<close> returns the dependents of \<open>v\<close>.\<close>
  "UpEdges g v = remdups (map fst (filter (\<lambda>e. snd e = v) (edges g)))"

definition DownEdges :: "'v graph \<Rightarrow> 'v \<Rightarrow> 'v list" where
  \<comment> \<open>Modelled from the spec: \<open>dag.Graph.DownEdges\<close> is not among the sources;
      \<open>down-edges(v)\<close> returns the dependencies of \<open>v\<close>.\<close>
  "DownEdges g v = remdups (map snd (filter (\<lambda>e. fst e = v) (edges g)))"

definition Connect :: "'v graph \<Rightarrow> 'v \<times> 'v \<Rightarrow> 'v graph" where
  \<comment> \<open>Modelled from the spec: \<open>dag.Graph.Connect\<close> is not among the sources;
      \<open>connect(from, to)\<close> is idempotent and a self-loop is refused.\<close>
  "Connect g e =
     (if fst e = snd e \<or> e \<in> set (edges g) then g else g\<lparr>edges := edges g @ [e]\<rparr>)"

definition Remove :: "'v graph \<Rightarrow> 'v \<Rightarrow> 'v graph" where
  \<comment> \<open>Modelled from the spec: \<open>dag.Graph.Remove\<close> is not among the sources; removing a
      vertex takes its edges with it (edges are pairs of vertices of the graph).\<close>
  "Remove g v =
     g\<lparr>vertices := filter (\<lambda>u. u \<noteq> v) (vertices g),
       edges := filter (\<lambda>e. fst e \<noteq> v \<and> snd e \<noteq> v) (edges g)\<rparr>"

definition Ancestors :: "'v graph \<Rightarrow> 'v \<Rightarrow> 'v set" where
  \<comment> \<open>Modelled from the spec: \<open>dag.AcyclicGraph.Ancestors\<close> is not among the sources.
      The exclusion resolver's ancestors are the dependencies (the source names the loop
      variable \<open>dep\<close>): the transitive closure over down-edges.\<close>
  "Ancestors g v = (set (edges g))\<^sup>+ `` {v}"



text \<open>The filter of a walk labels vertices; a vertex with no label is unset.\<close>

datatype status = Allowed | ExplicitlyExcluded

type_synonym 'v traversal_filter = "'v \<rightharpoonup> status"

definition Include :: "'v traversal_filter \<Rightarrow> 'v \<Rightarrow> 'v traversal_filter" where
  \<comment> \<open>Modelled from the spec: \<open>dag\<close>'s filter is not among the sources; \<open>include(v)\<close>
      sets the label, and \<open>exclude\<close> dominates \<open>include\<close> once the label is
      \<open>ExplicitlyExcluded\<close>.\<close>
  "Include f v = (if f v = Some ExplicitlyExcluded then f else f(v \<mapsto> Allowed))"

definition Exclude :: "'v traversal_filter \<Rightarrow> 'v \<Rightarrow> 'v traversal_filter" where
  \<comment> \<open>Modelled from the spec: \<open>exclude(v)\<close> sets the label.\<close>
  "Exclude f v = f(v \<mapsto> ExplicitlyExcluded)"

definition Matches :: "'v traversal_filter \<Rightarrow> 'v \<Rightarrow> status \<Rightarrow> bool" where
  \<comment> \<open>Modelled from the spec: \<open>matches(v, label)\<close> says whether the current label of
      \<open>v\<close> equals \<open>label\<close>.\<close>
  "Matches f v s = (f v = Some s)"






section \<open>The graph of the walker: vertices, targeting addresses, reduction\<close>

text \<open>
  A vertex is a Go value that the walker probes with type assertions. The record has one
  field per interface the walker asks for: an optional field holds what the interface's
  method returns and is \<open>None\<close> when the vertex does not implement it, a flag says
  whether it implements an interface whose method is an action. The three interfaces
  that give a vertex its evaluation scope share the method name \<open>Path\<close> with different
  signatures, so a vertex has at most one of them.
\<close>

type_synonym targetable = string

datatype scope =
    evalContextModuleInstance "string list"
  | evalContextPartialExpandedModule "string list"
  | evalContextGlobal

datatype vertex_path =
    ScopePath scope
  | ModuleInstancePath "string list"
  | PartialExpandedModulePath "string list"

record vertex =
  Name :: string
  ResourceInstanceAddr :: "targetable option"
  ResourceAddr :: "targetable option"
  ConfigProvider :: "string option"
  ProviderAddr :: "string list option"
  Path :: "vertex_path option"
  HasSetExcluded :: bool
  Executable :: bool
  DynamicExpandable :: bool
  Targets :: "targetable list option"

definition rootNode :: vertex where
  \<comment> \<open>Modelled from the spec: the declaration of \<open>rootNode\<close> is not among the sources;
      it is the distinguished singleton root vertex, with no capability.\<close>
  "rootNode =
     \<lparr>Name = ''root'', ResourceInstanceAddr = None, ResourceAddr = None,
      ConfigProvider = None, ProviderAddr = None, Path = None, HasSetExcluded = False,
      Executable = False, DynamicExpandable = False, Targets = None\<rparr>"

definition getTargetable :: "vertex \<Rightarrow> targetable option" where
  "getTargetable node =
     (case ResourceInstanceAddr node of
        Some a \<Rightarrow> Some a
      | None \<Rightarrow>
          (case ResourceAddr node of
             Some a \<Rightarrow> Some a
           | None \<Rightarrow> None))"

text \<open>The closure \<open>contains\<close> of \<open>isExcluded\<close>. \<open>TargetContains\<close> is a method of the
  address package, outside the walker: it is a parameter \<open>tc\<close> here, with \<open>tc e t\<close>
  for \<open>e.TargetContains(t)\<close>.\<close>

definition excludedContains ::
  "(targetable \<Rightarrow> targetable \<Rightarrow> bool) \<Rightarrow> targetable list \<Rightarrow> targetable \<Rightarrow> bool" where
  "excludedContains tc excludedAddrs t = list_ex (\<lambda>excluded. tc excluded t) excludedAddrs"

definition targetableExcluded ::
  "(targetable \<Rightarrow> targetable \<Rightarrow> bool) \<Rightarrow> targetable list \<Rightarrow> vertex \<Rightarrow> bool" where
  "targetableExcluded tc excludedAddrs node =
     (case getTargetable node of
        None \<Rightarrow> False
      | Some t \<Rightarrow> excludedContains tc excludedAddrs t)"

definition isExcluded ::
  "(targetable \<Rightarrow> targetable \<Rightarrow> bool) \<Rightarrow> vertex graph \<Rightarrow> vertex \<Rightarrow> targetable list \<Rightarrow> bool" where
  "isExcluded tc g node excludedAddrs =
     (if targetableExcluded tc excludedAddrs node then True
      else (\<exists>dep \<in> Ancestors g node. targetableExcluded tc excludedAddrs dep))"

text \<open>
  The target selector. Its address of a vertex is written after the spec's words, apart
  from \<open>getTargetable\<close>; the selection keeps the vertices of the graph whose address a
  target contains, and the ancestors (dependencies) of those.
\<close>

definition selectorAddress :: "vertex \<Rightarrow> targetable option" where
  \<comment> \<open>Modelled from the spec: \<open>selectTargetedNodes\<close> is not among the sources; the address
      of a vertex is its resource-instance address if it has one, else its config-resource
      address if it has one, else none.\<close>
  "selectorAddress v =
     (if ResourceInstanceAddr v \<noteq> None then ResourceInstanceAddr v
      else if ResourceAddr v \<noteq> None then ResourceAddr v
      else None)"

definition directlyTargeted ::
  "(targetable \<Rightarrow> targetable \<Rightarrow> bool) \<Rightarrow> targetable list \<Rightarrow> vertex \<Rightarrow> bool" where
  \<comment> \<open>Modelled from the spec: if any target contains the address of \<open>v\<close>, \<open>v\<close> is
      included.\<close>
  "directlyTargeted tc targets v =
     (case selectorAddress v of
        None \<Rightarrow> False
      | Some a \<Rightarrow> list_ex (\<lambda>t. tc t a) targets)"

definition selectTargetedNodes ::
  "(targetable \<Rightarrow> targetable \<Rightarrow> bool) \<Rightarrow> vertex graph \<Rightarrow> targetable list \<Rightarrow> vertex list" where
  \<comment> \<open>Modelled from the spec: \<open>selectTargetedNodes\<close> is not among the sources; it selects
      the vertices whose address is contained by a target, plus their transitive ancestors
      (the dependencies of a target, so that it is runnable).\<close>
  "selectTargetedNodes tc g targets =
     (let direct = filter (directlyTargeted tc targets) (Vertices g)
      in filter (\<lambda>v. v \<in> set direct \<or> (\<exists>d \<in> set direct. v \<in> Ancestors g d)) (Vertices g))"

text \<open>The body of the loop of \<open>reducePreservingRelationships\<close> for one vertex \<open>n\<close> of the
  list the loop runs over, and the loop. The two inner loops range over the keys of the
  sets \<open>UpEdges(n)\<close> and \<open>DownEdges(n)\<close>, taken before the first \<open>Connect\<close>; the key of
  a vertex is the vertex itself (the vertices of this package are not \<open>dag.Hashable\<close>).\<close>

definition reduceVertex :: "('v \<Rightarrow> bool) \<Rightarrow> 'v graph \<Rightarrow> 'v \<Rightarrow> 'v graph" where
  "reduceVertex keepNode g n =
     (if keepNode n then g
      else
        let dependents = UpEdges g n;
            dependencies = DownEdges g n;
            g' = foldl (\<lambda>g dependent.
                   foldl (\<lambda>g dependency. Connect g (dependent, dependency)) g dependencies)
                 g dependents
        in Remove g' n)"

definition reducePreservingRelationships :: "('v \<Rightarrow> bool) \<Rightarrow> 'v graph \<Rightarrow> 'v graph" where
  "reducePreservingRelationships keepNode g = foldl (reduceVertex keepNode) g (Vertices g)"

text \<open>Reachability along dependency edges, in no step or more.\<close>

definition reachable :: "'v graph \<Rightarrow> 'v \<Rightarrow> 'v \<Rightarrow> bool" where
  "reachable g a b = (a = b \<or> (a, b) \<in> (set (edges g))\<^sup>+)"

text \<open>What removing \<open>n\<close> does to an edge set: every dependent of \<open>n\<close> is connected to
  every dependency of \<open>n\<close>, then the edges at \<open>n\<close> go.\<close>

definition bypass :: "('v \<times> 'v) set \<Rightarrow> 'v \<Rightarrow> ('v \<times> 'v) set" where
  "bypass E n =
     {e \<in> E \<union> {(d, u) | d u. (d, n) \<in> E \<and> (n, u) \<in> E \<and> d \<noteq> u}. fst e \<noteq> n \<and> snd e \<noteq> n}"

text \<open>A chain for the reduction: resource 1 depends on node 2, which depends on node 3,
  which depends on resource 4.\<close>

definition longChain :: "nat graph" where
  "longChain = \<lparr>vertices = [1, 2, 3, 4], edges = [(1, 2), (2, 3), (3, 4)]\<rparr>"

section \<open>The walk\<close>

text \<open>
  What the walk does to the world outside its own variables is kept as a trace of
  events, in program order: the log lines the claims speak of, the calls into the walker
  and the calls of a vertex's own methods. The other trace-level log lines are left out.
\<close>

type_synonym evalctx = nat

datatype event =
    LogStartingVisit vertex
  | LogPanicked vertex
  | LogVertexError vertex string
  | LogVisitCompleteWithErrors vertex
  | LogVisitComplete vertex
  | LogSkippingProvider vertex
  | CallSetOverride vertex string
  | CallEnterScope scope
  | CallExitScope scope
  | CallSetExcluded vertex bool
  | CallExecute evalctx vertex
  | CallDynamicExpand evalctx vertex

text \<open>The overrides of an evaluation context: \<open>Empty()\<close>, \<open>GetResourceOverride\<close> and
  \<open>IsOverridden\<close>.\<close>

record overrides =
  Empty :: bool
  GetResourceOverride :: "targetable \<Rightarrow> string \<Rightarrow> string option"
  IsOverridden :: "string list \<Rightarrow> bool"

text \<open>
  The interface \<open>GraphWalker\<close>. \<open>Execute\<close> may depend on everything that happened
  before, so it reads the trace; it returns diagnostics (\<open>Inr\<close>) or panics (\<open>Inl\<close>).
  \<open>exitScope\<close> returns nothing: it shows as an event only.
\<close>

record walker =
  EvalContext :: evalctx
  TargetAddrs :: "targetable list"
  ExcludedAddrs :: "targetable list"
  enterScope :: "scope \<Rightarrow> evalctx"
  Execute :: "event list \<Rightarrow> evalctx \<Rightarrow> vertex \<Rightarrow> string + diagnostics"

text \<open>
  The rest of the program the walk calls into, as parameters: \<open>TargetContains\<close> of the
  address package, the method \<open>DynamicExpand\<close> of the expandable vertices (a sub-graph or nil, with
  diagnostics, or a panic), and for each evaluation context the filter it hands out
  (\<open>Filter()\<close>, a reference into the filters of the state) and its overrides.
\<close>

record env =
  TargetContains :: "targetable \<Rightarrow> targetable \<Rightarrow> bool"
  DynamicExpand :: "event list \<Rightarrow> vertex \<Rightarrow> evalctx \<Rightarrow> string + (vertex graph option \<times> diagnostics)"
  Filter :: "evalctx \<Rightarrow> nat"
  Overrides :: "evalctx \<Rightarrow> overrides"




subsection \<open>Filtering before the traversal\<close>

text \<open>Lines 85 to 101 of \<open>walk\<close>: the exclusion loop, run when the walker has excluded
  addresses.\<close>

definition excludeStep ::
  "(targetable \<Rightarrow> targetable \<Rightarrow> bool) \<Rightarrow> vertex graph \<Rightarrow> targetable list \<Rightarrow>
   vertex traversal_filter \<Rightarrow> vertex \<Rightarrow> vertex traversal_filter" where
  "excludeStep tc g excludeAddrs f node =
     (if Matches f node ExplicitlyExcluded then f
      else if isExcluded tc g node excludeAddrs then Exclude f node
      else f)"

definition applyExclusions ::
  "(targetable \<Rightarrow> targetable \<Rightarrow> bool) \<Rightarrow> vertex graph \<Rightarrow> targetable list \<Rightarrow>
   vertex traversal_filter \<Rightarrow> vertex traversal_filter" where
  "applyExclusions tc g excludeAddrs f =
     (if length excludeAddrs > 0
      then foldl (excludeStep tc g excludeAddrs) f (Vertices g)
      else f)"

text \<open>Lines 103 to 124 of \<open>walk\<close>: with no target every vertex that is not excluded is
  included; otherwise the targeted nodes are included and every vertex that is not
  allowed after that is excluded.\<close>

definition includeUnlessExcluded :: "vertex traversal_filter \<Rightarrow> vertex \<Rightarrow> vertex traversal_filter" where
  "includeUnlessExcluded f node =
     (if \<not> Matches f node ExplicitlyExcluded then Include f node else f)"

definition excludeUnlessAllowed :: "vertex traversal_filter \<Rightarrow> vertex \<Rightarrow> vertex traversal_filter" where
  "excludeUnlessAllowed f node =
     (if \<not> Matches f node Allowed then Exclude f node else f)"

definition applyTargets ::
  "(targetable \<Rightarrow> targetable \<Rightarrow> bool) \<Rightarrow> vertex graph \<Rightarrow> targetable list \<Rightarrow>
   vertex traversal_filter \<Rightarrow> vertex traversal_filter" where
  "applyTargets tc g targets f =
     (if length targets = 0
      then foldl includeUnlessExcluded f (Vertices g)
      else
        let targetedNodes = selectTargetedNodes tc g targets;
            f' = foldl Include f targetedNodes
        in foldl excludeUnlessAllowed f' (Vertices g))"

definition preTraversal ::
  "env \<Rightarrow> walker \<Rightarrow> vertex graph \<Rightarrow> targetable list \<Rightarrow>
   vertex traversal_filter \<Rightarrow> vertex traversal_filter" where
  "preTraversal e w g targets f =
     applyTargets (TargetContains e) g targets
       (applyExclusions (TargetContains e) g (ExcludedAddrs w) f)"

subsection \<open>The callback of a vertex\<close>






















text \<open>A vertex that has both addresses: an instance of the resource \<open>aws_s3.a\<close>.\<close>

definition dualAddressed :: vertex where
  "dualAddressed = rootNode\<lparr>Name := ''aws_s3.a[0]'', ResourceInstanceAddr := Some ''aws_s3.a[0]'', ResourceAddr := Some ''aws_s3.a''\<rparr>"

definition configOnly :: vertex where
  "configOnly = rootNode\<lparr>Name := ''aws_s3.b'', ResourceAddr := Some ''aws_s3.b''\<rparr>"

definition twoResources :: "vertex graph" where
  "twoResources = \<lparr>vertices = [dualAddressed, configOnly, rootNode], edges = []\<rparr>"

text \<open>Examples for the filtering: resource A depends on resource B, which depends on
  resource C; a walker that excludes an address, with equality as containment; an
  environment with no overrides and no dynamic sub-graph.\<close>

definition resA :: vertex where
  "resA = rootNode\<lparr>Name := ''A'', ResourceAddr := Some ''A'', Executable := True\<rparr>"

definition resB :: vertex where
  "resB = rootNode\<lparr>Name := ''B'', ResourceAddr := Some ''B'', Executable := True\<rparr>"

definition resC :: vertex where
  "resC = rootNode\<lparr>Name := ''C'', ResourceAddr := Some ''C'', Executable := True\<rparr>"

definition dependencyChain :: "vertex graph" where
  "dependencyChain = \<lparr>vertices = [resA, resB, resC], edges = [(resA, resB), (resB, resC)]\<rparr>"

definition plainEnv :: env where
  "plainEnv =
     \<lparr>TargetContains = (=),
      DynamicExpand = (\<lambda>tr v c. Inr (None, [])),
      Filter = (\<lambda>c. 0),
      Overrides = (\<lambda>c. \<lparr>Empty = True, GetResourceOverride = (\<lambda>a p. None), IsOverridden = (\<lambda>m. False)\<rparr>)\<rparr>"

definition excludingWalker :: "targetable list \<Rightarrow> walker" where
  "excludingWalker xs =
     \<lparr>EvalContext = 0, TargetAddrs = [], ExcludedAddrs = xs,
      enterScope = (\<lambda>sc. 1), Execute = (\<lambda>tr c v. Inr [])\<rparr>"









section \<open>Theorems about the local backend\<close>

lemma Append_Diagnostics: "Append diags (ItemDiagnostics ds) = Inr (appendDiagnostics diags ds)"
  by (simp add: Append_def appendDiagnostics_def)

lemma Append_Diagnostic: "Append diags (ItemDiagnostic d) = Inr (appendDiagnostics diags [d])"
  by (simp add: Append_def appendDiagnostics_def)

lemma NewWithBackend_error_iff: "(\<exists>e. NewWithBackend b = Inl e) \<longleftrightarrow> b = None"
  by (cases b) (simp_all add: NewWithBackend_def)

lemma NewWithBackend_Backend: "NewWithBackend b = Inr l \<Longrightarrow> Backend l = b \<and> b \<noteq> None"
  by (cases b) (auto simp: NewWithBackend_def)

lemma missing_store_message:
  "diagnosticError MissingStateStorageDiag =
     ''<nil>: Missing state store; '' @ Detail MissingStateStorageDiag"
  by (simp add: diagnosticError_def MissingStateStorageDiag_def)

text \<open>What holds of the guard: the constructor fails exactly on a nil backend,
  \<open>Workspaces\<close>, \<open>DeleteWorkspace\<close> and \<open>StateMgr\<close> return the error printed from the
  diagnostic "Missing state store" when there is no backend, \<open>ConfigSchema\<close> returns the
  empty block, and all six methods delegate when there is a backend.\<close>

lemma local_backend_guard_and_delegation:
  "((\<exists>e. NewWithBackend b = Inl e) \<longleftrightarrow> b = None)
   \<and> (\<forall>l. NewWithBackend b = Inr l \<longrightarrow> Backend l = b \<and> Backend l \<noteq> None)
   \<and> (Backend l = None \<longrightarrow>
        Workspaces l = Inl (Errorf (diagnosticError MissingStateStorageDiag))
        \<and> DeleteWorkspace l name force = Some (Errorf (diagnosticError MissingStateStorageDiag))
        \<and> StateMgr l name = Inl (Errorf (diagnosticError MissingStateStorageDiag))
        \<and> ConfigSchema l = Block []
        \<and> Summary MissingStateStorageDiag = ''Missing state store''
        \<and> Severity MissingStateStorageDiag = Error)
   \<and> (\<forall>be. Backend l = Some be \<longrightarrow>
        PrepareConfig l obj = Inr (backendPrepareConfig be obj)
        \<and> Configure l obj = Inr (backendConfigure be obj)
        \<and> Workspaces l = backendWorkspaces be
        \<and> DeleteWorkspace l name force = backendDeleteWorkspace be name force
        \<and> StateMgr l name = backendStateMgr be name
        \<and> ConfigSchema l = backendConfigSchema be)"
proof (intro conjI allI impI)
  show "(\<exists>e. NewWithBackend b = Inl e) \<longleftrightarrow> b = None"
    by (rule NewWithBackend_error_iff)
next
  fix l' assume "NewWithBackend b = Inr l'"
  then show "Backend l' = b" and "Backend l' \<noteq> None"
    using NewWithBackend_Backend by auto
qed (simp_all add: PrepareConfig_def Configure_def Workspaces_def DeleteWorkspace_def
       StateMgr_def ConfigSchema_def MissingStateStorageDiag_def)

text \<open>
  Claim C10, at the input where the code leaves it. On a \<open>Local\<close> whose \<open>Backend\<close> is nil,
  \<open>PrepareConfig\<close> and \<open>Configure\<close> do not return the diagnostic "Missing state store":
  they pass the \<open>hcl.Diagnostic\<close> by value to \<open>Append\<close>, which panics on a value of that
  type. The three sibling methods return their error on the same \<open>Local\<close>, and
  \<open>ConfigSchema\<close> returns the empty block.
\<close>

theorem local_nil_backend_append_panics:
  "PrepareConfig nilBackendLocal (KnownVal ''{}'') = Inl ''cannot append hcl.Diagnostic to diagnostics''
   \<and> Configure nilBackendLocal (KnownVal ''{}'') = Inl ''cannot append hcl.Diagnostic to diagnostics''
   \<and> Workspaces nilBackendLocal = Inl (Errorf (diagnosticError MissingStateStorageDiag))
   \<and> DeleteWorkspace nilBackendLocal ''test'' True = Some (Errorf (diagnosticError MissingStateStorageDiag))
   \<and> StateMgr nilBackendLocal ''test'' = Inl (Errorf (diagnosticError MissingStateStorageDiag))
   \<and> ConfigSchema nilBackendLocal = Block []"
  by (simp add: PrepareConfig_def Configure_def Workspaces_def DeleteWorkspace_def StateMgr_def
        ConfigSchema_def nilBackendLocal_def Append_def)

section \<open>Theorems about the reduction of the graph\<close>

lemma Connect_edges:
  "set (edges (Connect g e)) = (if fst e = snd e then set (edges g) else insert e (set (edges g)))"
  by (auto simp: Connect_def)

lemma Connect_vertices: "vertices (Connect g e) = vertices g"
  by (simp add: Connect_def)

lemma connect_dependencies_edges:
  "set (edges (foldl (\<lambda>g dependency. Connect g (d, dependency)) g us))
     = set (edges g) \<union> {(d, u) | u. u \<in> set us \<and> d \<noteq> u}"
  by (induction us arbitrary: g) (auto simp: Connect_edges)

lemma connect_dependencies_vertices:
  "vertices (foldl (\<lambda>g dependency. Connect g (d, dependency)) g us) = vertices g"
  by (induction us arbitrary: g) (auto simp: Connect_vertices)

lemma connect_all_edges:
  "set (edges (foldl (\<lambda>g dependent. foldl (\<lambda>g dependency. Connect g (dependent, dependency)) g us) g ds))
     = set (edges g) \<union> {(d, u) | d u. d \<in> set ds \<and> u \<in> set us \<and> d \<noteq> u}"
  by (induction ds arbitrary: g) (auto simp: connect_dependencies_edges)

lemma connect_all_vertices:
  "vertices (foldl (\<lambda>g dependent. foldl (\<lambda>g dependency. Connect g (dependent, dependency)) g us) g ds)
     = vertices g"
  by (induction ds arbitrary: g) (auto simp: connect_dependencies_vertices)

lemma Remove_edges: "set (edges (Remove g n)) = {e \<in> set (edges g). fst e \<noteq> n \<and> snd e \<noteq> n}"
  by (auto simp: Remove_def)

lemma Remove_vertices: "vertices (Remove g n) = filter (\<lambda>u. u \<noteq> n) (vertices g)"
  by (simp add: Remove_def)

lemma set_UpEdges: "set (UpEdges g n) = {d. (d, n) \<in> set (edges g)}"
  by (force simp: UpEdges_def)

lemma set_DownEdges: "set (DownEdges g n) = {u. (n, u) \<in> set (edges g)}"
  by (force simp: DownEdges_def)

lemma reduceVertex_edges:
  "\<not> keepNode n \<Longrightarrow> set (edges (reduceVertex keepNode g n)) = bypass (set (edges g)) n"
  by (simp add: reduceVertex_def Let_def Remove_edges connect_all_edges set_UpEdges set_DownEdges bypass_def)

lemma reduceVertex_vertices:
  "vertices (reduceVertex keepNode g n) = (if keepNode n then vertices g else filter (\<lambda>u. u \<noteq> n) (vertices g))"
  by (simp add: reduceVertex_def Let_def Remove_vertices connect_all_vertices)

lemma bypass_sound: "bypass E n \<subseteq> E\<^sup>*"
proof
  fix e assume "e \<in> bypass E n"
  then consider "e \<in> E" | d u where "e = (d, u)" "(d, n) \<in> E" "(n, u) \<in> E"
    by (auto simp: bypass_def)
  then show "e \<in> E\<^sup>*"
  proof cases
    case 1 then show ?thesis by auto
  next
    case 2
    then have "(d, u) \<in> E\<^sup>*" by (meson rtrancl.simps)
    with 2 show ?thesis by simp
  qed
qed

lemma bypass_complete_aux:
  assumes "(x, y) \<in> E\<^sup>*" and "x \<noteq> n"
  shows "if y \<noteq> n then (x, y) \<in> (bypass E n)\<^sup>*
         else (\<exists>d. d \<noteq> n \<and> (x, d) \<in> (bypass E n)\<^sup>* \<and> (d, n) \<in> E)"
  using assms(1)
proof (induction rule: rtrancl_induct)
  case base
  then show ?case using assms(2) by simp
next
  case (step y z)
  show ?case
  proof (cases "y = n")
    case yn: True
    from step.IH yn obtain d where d: "d \<noteq> n" "(x, d) \<in> (bypass E n)\<^sup>*" "(d, n) \<in> E" by auto
    show ?thesis
    proof (cases "z = n")
      case True
      with d show ?thesis by auto
    next
      case zn: False
      show ?thesis
      proof (cases "d = z")
        case True
        with d zn show ?thesis by simp
      next
        case False
        with d zn step.hyps(2) yn have "(d, z) \<in> bypass E n" by (auto simp: bypass_def)
        with d(2) have "(x, z) \<in> (bypass E n)\<^sup>*" by (rule rtrancl_into_rtrancl)
        with zn show ?thesis by simp
      qed
    qed
  next
    case yn: False
    with step.IH have xy: "(x, y) \<in> (bypass E n)\<^sup>*" by simp
    show ?thesis
    proof (cases "z = n")
      case True
      with xy yn step.hyps(2) show ?thesis by auto
    next
      case False
      with yn step.hyps(2) have "(y, z) \<in> bypass E n" by (auto simp: bypass_def)
      with xy have "(x, z) \<in> (bypass E n)\<^sup>*" by (rule rtrancl_into_rtrancl)
      with False show ?thesis by simp
    qed
  qed
qed

lemma bypass_reach:
  assumes "a \<noteq> n" and "b \<noteq> n"
  shows "(a, b) \<in> (bypass E n)\<^sup>* \<longleftrightarrow> (a, b) \<in> E\<^sup>*"
proof
  have sub: "(bypass E n)\<^sup>* \<subseteq> E\<^sup>*"
    by (rule rtrancl_subset_rtrancl) (rule bypass_sound)
  assume "(a, b) \<in> (bypass E n)\<^sup>*"
  with sub show "(a, b) \<in> E\<^sup>*" by (rule subsetD)
next
  assume "(a, b) \<in> E\<^sup>*"
  from bypass_complete_aux [OF this assms(1)]
  have "if b \<noteq> n then (a, b) \<in> (bypass E n)\<^sup>*
        else (\<exists>d. d \<noteq> n \<and> (a, d) \<in> (bypass E n)\<^sup>* \<and> (d, n) \<in> E)" .
  then show "(a, b) \<in> (bypass E n)\<^sup>*" by (simp only: assms(2) not_False_eq_True if_True)
qed

lemma reachable_rtrancl: "reachable g a b \<longleftrightarrow> (a, b) \<in> (set (edges g))\<^sup>*"
  unfolding reachable_def by (metis rtrancl_eq_or_trancl)

lemma reduceVertex_reach:
  assumes "keepNode a" and "keepNode b"
  shows "reachable (reduceVertex keepNode g n) a b \<longleftrightarrow> reachable g a b"
proof (cases "keepNode n")
  case True
  then show ?thesis by (simp add: reduceVertex_def)
next
  case False
  with assms have "a \<noteq> n" "b \<noteq> n" by auto
  with False show ?thesis
    by (simp add: reachable_rtrancl reduceVertex_edges bypass_reach)
qed

lemma reduce_loop_reach:
  assumes "keepNode a" and "keepNode b"
  shows "reachable (foldl (reduceVertex keepNode) g ns) a b \<longleftrightarrow> reachable g a b"
  using assms by (induction ns arbitrary: g) (simp_all add: reduceVertex_reach)

lemma reduce_loop_vertices:
  "vertices (foldl (reduceVertex keepNode) g ns)
     = filter (\<lambda>v. keepNode v \<or> v \<notin> set ns) (vertices g)"
proof (induction ns arbitrary: g)
  case Nil
  then show ?case by simp
next
  case (Cons n ns)
  have step: "vertices (foldl (reduceVertex keepNode) g (n # ns))
      = filter (\<lambda>v. keepNode v \<or> v \<notin> set ns) (vertices (reduceVertex keepNode g n))"
    by (simp add: Cons.IH)
  show ?case
  proof (cases "keepNode n")
    case True
    have "filter (\<lambda>v. keepNode v \<or> v \<notin> set ns) (vertices g)
        = filter (\<lambda>v. keepNode v \<or> v \<notin> set (n # ns)) (vertices g)"
      by (rule filter_cong) (use True in auto)
    with True step show ?thesis by (simp add: reduceVertex_vertices)
  next
    case False
    have "filter (\<lambda>v. keepNode v \<or> v \<notin> set ns) (filter (\<lambda>u. u \<noteq> n) (vertices g))
        = filter (\<lambda>v. keepNode v \<or> v \<notin> set (n # ns)) (vertices g)"
      unfolding filter_filter by (rule filter_cong) (use False in auto)
    with False step show ?thesis by (simp add: reduceVertex_vertices)
  qed
qed

lemma bypass_cases:
  assumes "e \<in> bypass E n"
  shows "e \<in> E \<or> (\<exists>d u. e = (d, u) \<and> (d, n) \<in> E \<and> (n, u) \<in> E)"
  using assms by (auto simp: bypass_def)

lemma bypass_endpoints:
  assumes "e \<in> bypass E n"
  shows "\<exists>e1 \<in> E. fst e = fst e1" and "\<exists>e2 \<in> E. snd e = snd e2"
proof -
  from bypass_cases [OF assms]
  consider "e \<in> E" | d u where "e = (d, u)" "(d, n) \<in> E" "(n, u) \<in> E" by blast
  then have "(\<exists>e1 \<in> E. fst e = fst e1) \<and> (\<exists>e2 \<in> E. snd e = snd e2)"
  proof cases
    case 1
    then show ?thesis by blast
  next
    case 2
    have "fst e = fst (d, n)" "snd e = snd (n, u)" using 2(1) by simp_all
    with 2(2,3) show ?thesis by blast
  qed
  then show "\<exists>e1 \<in> E. fst e = fst e1" and "\<exists>e2 \<in> E. snd e = snd e2" by blast+
qed

lemma reduceVertex_edges_sub:
  "set (edges (reduceVertex keepNode g n)) \<subseteq> set (edges g) \<union> bypass (set (edges g)) n"
proof (cases "keepNode n")
  case True
  then show ?thesis by (simp add: reduceVertex_def)
next
  case False
  then show ?thesis by (simp add: reduceVertex_edges)
qed

lemma reduceVertex_untouched:
  assumes "\<forall>e \<in> set (edges g). fst e \<noteq> m \<and> snd e \<noteq> m"
  shows "\<forall>e \<in> set (edges (reduceVertex keepNode g n)). fst e \<noteq> m \<and> snd e \<noteq> m"
proof
  fix e assume e: "e \<in> set (edges (reduceVertex keepNode g n))"
  have "e \<in> set (edges g) \<union> bypass (set (edges g)) n"
    by (rule subsetD [OF reduceVertex_edges_sub [of keepNode g n] e])
  then have "e \<in> set (edges g) \<or> e \<in> bypass (set (edges g)) n" by simp
  then show "fst e \<noteq> m \<and> snd e \<noteq> m"
  proof
    assume "e \<in> set (edges g)" with assms show ?thesis by blast
  next
    assume b: "e \<in> bypass (set (edges g)) n"
    from bypass_endpoints(1) [OF b] obtain e1 where e1: "e1 \<in> set (edges g)" "fst e = fst e1" by blast
    from bypass_endpoints(2) [OF b] obtain e2 where e2: "e2 \<in> set (edges g)" "snd e = snd e2" by blast
    from assms e1(1) have "fst e1 \<noteq> m" by blast
    moreover from assms e2(1) have "snd e2 \<noteq> m" by blast
    ultimately show ?thesis using e1(2) e2(2) by simp
  qed
qed

lemma reduce_loop_untouched:
  assumes "\<forall>e \<in> set (edges g). fst e \<noteq> m \<and> snd e \<noteq> m"
  shows "\<forall>e \<in> set (edges (foldl (reduceVertex keepNode) g ns)). fst e \<noteq> m \<and> snd e \<noteq> m"
  using assms
proof (induction ns arbitrary: g)
  case Nil
  then show ?case by simp
next
  case (Cons n ns)
  from Cons.prems
  have "\<forall>e \<in> set (edges (reduceVertex keepNode g n)). fst e \<noteq> m \<and> snd e \<noteq> m"
    by (rule reduceVertex_untouched)
  then have "\<forall>e \<in> set (edges (foldl (reduceVertex keepNode) (reduceVertex keepNode g n) ns)).
      fst e \<noteq> m \<and> snd e \<noteq> m"
    by (rule Cons.IH)
  then show ?case by simp
qed

lemma reduceVertex_clears:
  assumes "\<not> keepNode n"
  shows "\<forall>e \<in> set (edges (reduceVertex keepNode g n)). fst e \<noteq> n \<and> snd e \<noteq> n"
  using assms by (simp add: reduceVertex_edges bypass_def)

lemma reduce_loop_clears:
  assumes "m \<in> set ns" and "\<not> keepNode m"
  shows "\<forall>e \<in> set (edges (foldl (reduceVertex keepNode) g ns)). fst e \<noteq> m \<and> snd e \<noteq> m"
  using assms(1)
proof (induction ns arbitrary: g)
  case Nil
  then show ?case by simp
next
  case (Cons n ns)
  show ?case
  proof (cases "m = n")
    case True
    with assms(2) have "\<not> keepNode n" by simp
    then have "\<forall>e \<in> set (edges (reduceVertex keepNode g n)). fst e \<noteq> m \<and> snd e \<noteq> m"
      unfolding True by (rule reduceVertex_clears)
    then have "\<forall>e \<in> set (edges (foldl (reduceVertex keepNode) (reduceVertex keepNode g n) ns)).
        fst e \<noteq> m \<and> snd e \<noteq> m"
      by (rule reduce_loop_untouched)
    then show ?thesis by simp
  next
    case False
    with Cons.prems have "m \<in> set ns" by simp
    then have "\<forall>e \<in> set (edges (foldl (reduceVertex keepNode) (reduceVertex keepNode g n) ns)).
        fst e \<noteq> m \<and> snd e \<noteq> m"
      by (rule Cons.IH)
    then show ?thesis by simp
  qed
qed

lemma reduce_loop_endpoints:
  assumes "\<forall>e \<in> set (edges g). fst e \<in> V \<and> snd e \<in> V"
  shows "\<forall>e \<in> set (edges (foldl (reduceVertex keepNode) g ns)). fst e \<in> V \<and> snd e \<in> V"
  using assms
proof (induction ns arbitrary: g)
  case Nil
  then show ?case by simp
next
  case (Cons n ns)
  have "\<forall>e \<in> set (edges (reduceVertex keepNode g n)). fst e \<in> V \<and> snd e \<in> V"
  proof
    fix e assume e: "e \<in> set (edges (reduceVertex keepNode g n))"
    have "e \<in> set (edges g) \<union> bypass (set (edges g)) n"
      by (rule subsetD [OF reduceVertex_edges_sub [of keepNode g n] e])
    then have "e \<in> set (edges g) \<or> e \<in> bypass (set (edges g)) n" by simp
    then show "fst e \<in> V \<and> snd e \<in> V"
    proof
      assume "e \<in> set (edges g)" with Cons.prems show ?thesis by blast
    next
      assume b: "e \<in> bypass (set (edges g)) n"
      from bypass_endpoints(1) [OF b] obtain e1 where e1: "e1 \<in> set (edges g)" "fst e = fst e1" by blast
      from bypass_endpoints(2) [OF b] obtain e2 where e2: "e2 \<in> set (edges g)" "snd e = snd e2" by blast
      from Cons.prems e1(1) have "fst e1 \<in> V" by blast
      moreover from Cons.prems e2(1) have "snd e2 \<in> V" by blast
      ultimately show ?thesis using e1(2) e2(2) by simp
    qed
  qed
  then have "\<forall>e \<in> set (edges (foldl (reduceVertex keepNode) (reduceVertex keepNode g n) ns)).
      fst e \<in> V \<and> snd e \<in> V"
    by (rule Cons.IH)
  then show ?case by simp
qed

text \<open>
  Claim C3. After \<open>reducePreservingRelationships\<close> the vertices of the graph are those of
  the original graph that satisfy \<open>keepNode\<close>, in their order; for every two kept
  vertices \<open>a\<close> and \<open>b\<close>, \<open>b\<close> is reachable from \<open>a\<close> along dependency edges in the
  reduced graph if and only if it was in the original graph; no edge of the reduced graph
  touches a removed vertex, so that a path of the reduced graph never runs through one;
  and when the edges of the original graph join vertices of the graph, every edge of the
  reduced graph joins two kept vertices of the reduced graph.
\<close>

theorem reduce_preserves_reachability:
  "Vertices (reducePreservingRelationships keepNode g) = filter keepNode (Vertices g)
   \<and> (\<forall>a b. keepNode a \<and> keepNode b \<longrightarrow>
         (reachable (reducePreservingRelationships keepNode g) a b \<longleftrightarrow> reachable g a b))
   \<and> (\<forall>e \<in> set (edges (reducePreservingRelationships keepNode g)).
         \<forall>n \<in> set (Vertices g). \<not> keepNode n \<longrightarrow> fst e \<noteq> n \<and> snd e \<noteq> n)
   \<and> ((\<forall>e \<in> set (edges g). fst e \<in> set (Vertices g) \<and> snd e \<in> set (Vertices g)) \<longrightarrow>
        (\<forall>e \<in> set (edges (reducePreservingRelationships keepNode g)).
           fst e \<in> set (Vertices (reducePreservingRelationships keepNode g))
           \<and> snd e \<in> set (Vertices (reducePreservingRelationships keepNode g))
           \<and> keepNode (fst e) \<and> keepNode (snd e)))"
proof -
  have vs: "Vertices (reducePreservingRelationships keepNode g) = filter keepNode (Vertices g)"
    unfolding reducePreservingRelationships_def Vertices_def reduce_loop_vertices
    by (rule filter_cong) auto
  have reach: "\<forall>a b. keepNode a \<and> keepNode b \<longrightarrow>
         (reachable (reducePreservingRelationships keepNode g) a b \<longleftrightarrow> reachable g a b)"
    unfolding reducePreservingRelationships_def by (simp add: reduce_loop_reach)
  have clear: "\<forall>e \<in> set (edges (reducePreservingRelationships keepNode g)).
         \<forall>n \<in> set (Vertices g). \<not> keepNode n \<longrightarrow> fst e \<noteq> n \<and> snd e \<noteq> n"
  proof (intro ballI impI)
    fix e n
    assume e: "e \<in> set (edges (reducePreservingRelationships keepNode g))"
      and n: "n \<in> set (Vertices g)" and k: "\<not> keepNode n"
    from n have "n \<in> set (vertices g)" by (simp add: Vertices_def)
    from this k
    have "\<forall>e \<in> set (edges (foldl (reduceVertex keepNode) g (vertices g))). fst e \<noteq> n \<and> snd e \<noteq> n"
      by (rule reduce_loop_clears)
    with e show "fst e \<noteq> n \<and> snd e \<noteq> n"
      by (simp add: reducePreservingRelationships_def Vertices_def)
  qed
  have wf: "\<forall>e \<in> set (edges (reducePreservingRelationships keepNode g)).
           fst e \<in> set (Vertices (reducePreservingRelationships keepNode g))
           \<and> snd e \<in> set (Vertices (reducePreservingRelationships keepNode g))
           \<and> keepNode (fst e) \<and> keepNode (snd e)"
    if closed: "\<forall>e \<in> set (edges g). fst e \<in> set (Vertices g) \<and> snd e \<in> set (Vertices g)"
  proof
    fix e assume e: "e \<in> set (edges (reducePreservingRelationships keepNode g))"
    from closed
    have "\<forall>e \<in> set (edges (foldl (reduceVertex keepNode) g (Vertices g))).
        fst e \<in> set (Vertices g) \<and> snd e \<in> set (Vertices g)"
      by (rule reduce_loop_endpoints)
    with e have inV: "fst e \<in> set (Vertices g)" "snd e \<in> set (Vertices g)"
      by (simp_all add: reducePreservingRelationships_def)
    from clear e inV(1) have "keepNode (fst e)" by blast
    moreover from clear e inV(2) have "keepNode (snd e)" by blast
    ultimately have "keepNode (fst e)" "keepNode (snd e)" .
    with inV show "fst e \<in> set (Vertices (reducePreservingRelationships keepNode g))
           \<and> snd e \<in> set (Vertices (reducePreservingRelationships keepNode g))
           \<and> keepNode (fst e) \<and> keepNode (snd e)"
      by (simp add: vs)
  qed
  from wf have wf': "(\<forall>e \<in> set (edges g). fst e \<in> set (Vertices g) \<and> snd e \<in> set (Vertices g)) \<longrightarrow>
        (\<forall>e \<in> set (edges (reducePreservingRelationships keepNode g)).
           fst e \<in> set (Vertices (reducePreservingRelationships keepNode g))
           \<and> snd e \<in> set (Vertices (reducePreservingRelationships keepNode g))
           \<and> keepNode (fst e) \<and> keepNode (snd e))"
    by (rule impI)
  show ?thesis
    by (rule conjI [OF vs conjI [OF reach conjI [OF clear wf']]])
qed

theorem reduce_preserves_reachability_witness:
  "Vertices (reducePreservingRelationships (\<lambda>v. v = 1 \<or> v = 4) longChain) = [1, 4]
   \<and> edges (reducePreservingRelationships (\<lambda>v. v = 1 \<or> v = 4) longChain) = [(1, 4)]
   \<and> reachable longChain 1 4
   \<and> reachable (reducePreservingRelationships (\<lambda>v. v = 1 \<or> v = 4) longChain) 1 4
   \<and> \<not> reachable (reducePreservingRelationships (\<lambda>v. v = 1 \<or> v = 4) longChain) 4 1
   \<and> list_all (\<lambda>e. fst e \<in> {1, 4} \<and> snd e \<in> {1, 4})
        (edges (reducePreservingRelationships (\<lambda>v. v = 1 \<or> v = 4) longChain))"
proof -
  have orig: "reachable longChain 1 4" "\<not> reachable longChain 4 1"
    unfolding reachable_def longChain_def by code_simp+
  have es: "edges (reducePreservingRelationships (\<lambda>v. v = 1 \<or> v = 4) longChain) = [(1, 4)]"
    by code_simp
  have vs: "Vertices longChain = [1, 2, 3, 4]"
    by (simp add: Vertices_def longChain_def)
  have closed: "\<forall>e \<in> set (edges longChain). fst e \<in> set (Vertices longChain) \<and> snd e \<in> set (Vertices longChain)"
    by (simp add: Vertices_def longChain_def)
  from reduce_preserves_reachability [of "\<lambda>v. v = 1 \<or> v = 4" longChain] orig vs es closed
  show ?thesis by simp
qed

section \<open>Theorems about targeting addresses and exclusion\<close>

lemma excludedContains_iff: "excludedContains tc xs t \<longleftrightarrow> (\<exists>x \<in> set xs. tc x t)"
  by (simp add: excludedContains_def list_ex_iff)

lemma targetableExcluded_iff:
  "targetableExcluded tc xs v \<longleftrightarrow> (\<exists>t. getTargetable v = Some t \<and> (\<exists>x \<in> set xs. tc x t))"
  by (cases "getTargetable v") (simp_all add: targetableExcluded_def excludedContains_iff)

lemma isExcluded_iff:
  "isExcluded tc g v xs \<longleftrightarrow>
     (\<exists>t. getTargetable v = Some t \<and> (\<exists>x \<in> set xs. tc x t))
     \<or> (\<exists>dep \<in> Ancestors g v. \<exists>t. getTargetable dep = Some t \<and> (\<exists>x \<in> set xs. tc x t))"
  unfolding isExcluded_def targetableExcluded_iff by (simp only: if_bool_eq_disj) blast

lemma selectorAddress_getTargetable: "selectorAddress v = getTargetable v"
  by (cases "ResourceInstanceAddr v"; cases "ResourceAddr v")
     (simp_all add: selectorAddress_def getTargetable_def)

lemma directlyTargeted_iff:
  "directlyTargeted tc targets v \<longleftrightarrow> (\<exists>t. getTargetable v = Some t \<and> (\<exists>x \<in> set targets. tc x t))"
  by (cases "getTargetable v")
     (simp_all add: directlyTargeted_def selectorAddress_getTargetable list_ex_iff)

lemma selectTargetedNodes_iff:
  "v \<in> set (selectTargetedNodes tc g targets) \<longleftrightarrow>
     v \<in> set (Vertices g)
     \<and> (directlyTargeted tc targets v
        \<or> (\<exists>d \<in> set (Vertices g). directlyTargeted tc targets d \<and> v \<in> Ancestors g d))"
  by (simp add: selectTargetedNodes_def Let_def) blast

text \<open>
  Claim C8. The targetable address of a vertex is its resource-instance address when it
  has one, also when it has a config-resource address as well; it is the config-resource
  address only when there is no instance address; a vertex with neither has none. The
  exclusion test \<open>isExcluded\<close> reads the address of the vertex and of each of its
  ancestors through \<open>getTargetable\<close>, and the target selector selects by the same address.
\<close>

theorem getTargetable_instance_first:
  "(\<forall>a. ResourceInstanceAddr v = Some a \<longrightarrow> getTargetable v = Some a)
   \<and> (ResourceInstanceAddr v = None \<longrightarrow> getTargetable v = ResourceAddr v)
   \<and> (ResourceInstanceAddr v = None \<and> ResourceAddr v = None \<longrightarrow> getTargetable v = None)
   \<and> (\<forall>a. ResourceInstanceAddr v = Some a \<longrightarrow>
         targetableExcluded tc xs v = excludedContains tc xs a)
   \<and> (isExcluded tc g v xs \<longleftrightarrow>
         (\<exists>t. getTargetable v = Some t \<and> (\<exists>x \<in> set xs. tc x t))
         \<or> (\<exists>dep \<in> Ancestors g v. \<exists>t. getTargetable dep = Some t \<and> (\<exists>x \<in> set xs. tc x t)))
   \<and> (\<forall>a. ResourceInstanceAddr v = Some a \<and> Ancestors g v = {} \<longrightarrow>
         (isExcluded tc g v xs \<longleftrightarrow> (\<exists>x \<in> set xs. tc x a)))
   \<and> (\<forall>c. ResourceInstanceAddr v = None \<and> ResourceAddr v = Some c \<and> Ancestors g v = {} \<longrightarrow>
         (isExcluded tc g v xs \<longleftrightarrow> (\<exists>x \<in> set xs. tc x c)))
   \<and> (ResourceInstanceAddr v = None \<and> ResourceAddr v = None \<and> Ancestors g v = {} \<longrightarrow>
         \<not> isExcluded tc g v xs)
   \<and> selectorAddress v = getTargetable v
   \<and> (v \<in> set (selectTargetedNodes tc g targets) \<longleftrightarrow>
         v \<in> set (Vertices g)
         \<and> ((\<exists>t. getTargetable v = Some t \<and> (\<exists>x \<in> set targets. tc x t))
            \<or> (\<exists>d \<in> set (Vertices g).
                  (\<exists>t. getTargetable d = Some t \<and> (\<exists>x \<in> set targets. tc x t))
                  \<and> v \<in> Ancestors g d)))"
proof -
  have g1: "\<forall>a. ResourceInstanceAddr v = Some a \<longrightarrow> getTargetable v = Some a"
    by (simp add: getTargetable_def)
  have g2: "ResourceInstanceAddr v = None \<longrightarrow> getTargetable v = ResourceAddr v"
    by (simp add: getTargetable_def split: option.splits)
  have g3: "ResourceInstanceAddr v = None \<and> ResourceAddr v = None \<longrightarrow> getTargetable v = None"
    by (simp add: getTargetable_def)
  have g4: "\<forall>a. ResourceInstanceAddr v = Some a \<longrightarrow>
         targetableExcluded tc xs v = excludedContains tc xs a"
    by (simp add: getTargetable_def targetableExcluded_def)
  have x1: "isExcluded tc g v xs \<longleftrightarrow>
         (\<exists>t. getTargetable v = Some t \<and> (\<exists>x \<in> set xs. tc x t))
         \<or> (\<exists>dep \<in> Ancestors g v. \<exists>t. getTargetable dep = Some t \<and> (\<exists>x \<in> set xs. tc x t))"
    by (rule isExcluded_iff)
  have x2: "\<forall>a. ResourceInstanceAddr v = Some a \<and> Ancestors g v = {} \<longrightarrow>
         (isExcluded tc g v xs \<longleftrightarrow> (\<exists>x \<in> set xs. tc x a))"
    using g1 by (simp add: isExcluded_iff)
  have x3: "\<forall>c. ResourceInstanceAddr v = None \<and> ResourceAddr v = Some c \<and> Ancestors g v = {} \<longrightarrow>
         (isExcluded tc g v xs \<longleftrightarrow> (\<exists>x \<in> set xs. tc x c))"
    using g2 by (simp add: isExcluded_iff)
  have x4: "ResourceInstanceAddr v = None \<and> ResourceAddr v = None \<and> Ancestors g v = {} \<longrightarrow>
         \<not> isExcluded tc g v xs"
    using g3 by (simp add: isExcluded_iff)
  have s1: "selectorAddress v = getTargetable v"
    by (rule selectorAddress_getTargetable)
  have s2: "v \<in> set (selectTargetedNodes tc g targets) \<longleftrightarrow>
         v \<in> set (Vertices g)
         \<and> ((\<exists>t. getTargetable v = Some t \<and> (\<exists>x \<in> set targets. tc x t))
            \<or> (\<exists>d \<in> set (Vertices g).
                  (\<exists>t. getTargetable d = Some t \<and> (\<exists>x \<in> set targets. tc x t))
                  \<and> v \<in> Ancestors g d))"
    unfolding selectTargetedNodes_iff directlyTargeted_iff ..
  show ?thesis
    by (rule conjI [OF g1 conjI [OF g2 conjI [OF g3 conjI [OF g4 conjI [OF x1
          conjI [OF x2 conjI [OF x3 conjI [OF x4 conjI [OF s1 s2]]]]]]]]])
qed

lemma twoResources_no_ancestors: "Ancestors twoResources v = {}"
  by (simp add: Ancestors_def twoResources_def)

theorem getTargetable_instance_first_witness:
  "getTargetable dualAddressed = Some ''aws_s3.a[0]''
   \<and> getTargetable (dualAddressed\<lparr>ResourceInstanceAddr := None\<rparr>) = Some ''aws_s3.a''
   \<and> getTargetable rootNode = None
   \<and> isExcluded (=) twoResources dualAddressed [''aws_s3.a[0]'']
   \<and> \<not> isExcluded (=) twoResources dualAddressed [''aws_s3.a'']
   \<and> isExcluded (=) twoResources configOnly [''aws_s3.b'']
   \<and> \<not> isExcluded (=) twoResources rootNode [''aws_s3.a'', ''aws_s3.b'']
   \<and> dualAddressed \<in> set (selectTargetedNodes (=) twoResources [''aws_s3.a[0]''])
   \<and> dualAddressed \<notin> set (selectTargetedNodes (=) twoResources [''aws_s3.a''])
   \<and> configOnly \<in> set (selectTargetedNodes (=) twoResources [''aws_s3.b''])"
proof -
  have a: "ResourceInstanceAddr dualAddressed = Some ''aws_s3.a[0]''"
    by (simp add: dualAddressed_def)
  have b: "ResourceInstanceAddr (dualAddressed\<lparr>ResourceInstanceAddr := None\<rparr>) = None"
    "ResourceAddr (dualAddressed\<lparr>ResourceInstanceAddr := None\<rparr>) = Some ''aws_s3.a''"
    by (simp_all add: dualAddressed_def)
  have c: "ResourceInstanceAddr rootNode = None" "ResourceAddr rootNode = None"
    by (simp_all add: rootNode_def)
  have d: "ResourceInstanceAddr configOnly = None" "ResourceAddr configOnly = Some ''aws_s3.b''"
    by (simp_all add: configOnly_def rootNode_def)
  have vs: "set (Vertices twoResources) = {dualAddressed, configOnly, rootNode}"
    by (simp add: Vertices_def twoResources_def)
  note n = twoResources_no_ancestors
  note t1 = getTargetable_instance_first [of dualAddressed "(=)" "[''aws_s3.a[0]'']" twoResources "[''aws_s3.a[0]'']"]
  note t2 = getTargetable_instance_first [of dualAddressed "(=)" "[''aws_s3.a'']" twoResources "[''aws_s3.a'']"]
  note t3 = getTargetable_instance_first [of configOnly "(=)" "[''aws_s3.b'']" twoResources "[''aws_s3.b'']"]
  note t4 = getTargetable_instance_first [of rootNode "(=)" "[''aws_s3.a'', ''aws_s3.b'']" twoResources "[]"]
  note t5 = getTargetable_instance_first [of "dualAddressed\<lparr>ResourceInstanceAddr := None\<rparr>"]
  have g1: "getTargetable dualAddressed = Some ''aws_s3.a[0]''" using t1 a by simp
  have g2: "getTargetable (dualAddressed\<lparr>ResourceInstanceAddr := None\<rparr>) = Some ''aws_s3.a''"
    using t5 b by simp
  have g3: "getTargetable rootNode = None" using t4 c by simp
  have g4: "getTargetable configOnly = Some ''aws_s3.b''" using t3 d by simp
  have e1: "isExcluded (=) twoResources dualAddressed [''aws_s3.a[0]'']"
    using t1 a n by simp
  have e2: "\<not> isExcluded (=) twoResources dualAddressed [''aws_s3.a'']"
    using t2 a n by simp
  have e3: "isExcluded (=) twoResources configOnly [''aws_s3.b'']"
    using t3 d n by simp
  have e4: "\<not> isExcluded (=) twoResources rootNode [''aws_s3.a'', ''aws_s3.b'']"
    using t4 c n by simp
  have s1: "dualAddressed \<in> set (selectTargetedNodes (=) twoResources [''aws_s3.a[0]''])"
    using t1 g1 vs by simp
  have s2: "dualAddressed \<notin> set (selectTargetedNodes (=) twoResources [''aws_s3.a''])"
    using t2 g1 n by simp
  have s3: "configOnly \<in> set (selectTargetedNodes (=) twoResources [''aws_s3.b''])"
    using t3 g4 vs by simp
  from g1 g2 g3 e1 e2 e3 e4 s1 s2 s3 show ?thesis by simp
qed

section \<open>Theorems about the filtering before the traversal\<close>

lemma Include_apply:
  "Include f v u = (if u = v \<and> f v \<noteq> Some ExplicitlyExcluded then Some Allowed else f u)"
  by (simp add: Include_def)

lemma Exclude_apply: "Exclude f v u = (if u = v then Some ExplicitlyExcluded else f u)"
  by (simp add: Exclude_def)

lemma foldl_label:
  assumes step: "\<And>f n u. step f n u = (if u = n \<and> Q u (f u) then c else f u)"
  shows "foldl step f ns u = (if u \<in> set ns \<and> Q u (f u) then c else f u)"
proof (induction ns arbitrary: f)
  case Nil
  then show ?case by simp
next
  case (Cons n ns)
  have "foldl step f (n # ns) u = foldl step (step f n) ns u" by simp
  also have "\<dots> = (if u \<in> set ns \<and> Q u (step f n u) then c else step f n u)"
    by (rule Cons.IH)
  also have "\<dots> = (if u \<in> set (n # ns) \<and> Q u (f u) then c else f u)"
    by (cases "u = n"; cases "Q u (f u)") (simp_all add: step)
  finally show ?case .
qed

lemma exclude_loop_apply:
  "foldl (excludeStep tc g ex) f ns u
     = (if u \<in> set ns \<and> isExcluded tc g u ex then Some ExplicitlyExcluded else f u)"
  by (rule foldl_label [where Q = "\<lambda>u x. isExcluded tc g u ex"])
     (simp add: excludeStep_def Matches_def Exclude_apply)

lemma applyExclusions_apply:
  "applyExclusions tc g ex f u
     = (if ex \<noteq> [] \<and> u \<in> set (Vertices g) \<and> isExcluded tc g u ex
        then Some ExplicitlyExcluded else f u)"
  by (simp add: applyExclusions_def exclude_loop_apply)

lemma Ancestors_trans: "v \<in> Ancestors g u \<Longrightarrow> d \<in> Ancestors g v \<Longrightarrow> d \<in> Ancestors g u"
  unfolding Ancestors_def by (auto intro: trancl_trans)

lemma isExcluded_dependent:
  assumes "v \<in> Ancestors g u" and "isExcluded tc g v ex"
  shows "isExcluded tc g u ex"
proof -
  from assms(2) have "targetableExcluded tc ex v \<or> (\<exists>d \<in> Ancestors g v. targetableExcluded tc ex d)"
    by (simp add: isExcluded_def split: if_splits)
  then have "\<exists>d \<in> Ancestors g u. targetableExcluded tc ex d"
  proof
    assume "targetableExcluded tc ex v"
    with assms(1) show ?thesis by (rule bexI [rotated])
  next
    assume "\<exists>d \<in> Ancestors g v. targetableExcluded tc ex d"
    then obtain d where d: "d \<in> Ancestors g v" "targetableExcluded tc ex d" by (rule bexE)
    from Ancestors_trans [OF assms(1) d(1)] d(2) show ?thesis by (rule bexI [rotated])
  qed
  then show ?thesis by (simp add: isExcluded_def)
qed

lemma include_loop_apply:
  "foldl Include f ns u
     = (if u \<in> set ns \<and> f u \<noteq> Some ExplicitlyExcluded then Some Allowed else f u)"
  by (rule foldl_label [where Q = "\<lambda>u x. x \<noteq> Some ExplicitlyExcluded"])
     (simp add: Include_apply)

lemma include_unless_loop_apply:
  "foldl includeUnlessExcluded f ns u
     = (if u \<in> set ns \<and> f u \<noteq> Some ExplicitlyExcluded then Some Allowed else f u)"
  by (rule foldl_label [where Q = "\<lambda>u x. x \<noteq> Some ExplicitlyExcluded"])
     (simp add: includeUnlessExcluded_def Matches_def Include_apply)

lemma exclude_unless_loop_apply:
  "foldl excludeUnlessAllowed f ns u
     = (if u \<in> set ns \<and> f u \<noteq> Some Allowed then Some ExplicitlyExcluded else f u)"
  by (rule foldl_label [where Q = "\<lambda>u x. x \<noteq> Some Allowed"])
     (simp add: excludeUnlessAllowed_def Matches_def Exclude_apply)


lemma applyTargets_empty_apply:
  "applyTargets tc g [] f u
     = (if u \<in> set (Vertices g) \<and> f u \<noteq> Some ExplicitlyExcluded then Some Allowed else f u)"
  by (simp add: applyTargets_def include_unless_loop_apply)

lemma applyTargets_nonempty_apply:
  "targets \<noteq> [] \<Longrightarrow>
   applyTargets tc g targets f u
     = (if f u = Some ExplicitlyExcluded then Some ExplicitlyExcluded
        else if u \<in> set (selectTargetedNodes tc g targets) \<or> f u = Some Allowed then Some Allowed
        else if u \<in> set (Vertices g) then Some ExplicitlyExcluded
        else f u)"
  by (simp add: applyTargets_def Let_def exclude_unless_loop_apply include_loop_apply)

lemma applyTargets_keeps_excluded:
  "f u = Some ExplicitlyExcluded \<Longrightarrow> applyTargets tc g targets f u = Some ExplicitlyExcluded"
  by (cases "targets = []") (simp_all add: applyTargets_empty_apply applyTargets_nonempty_apply)

text \<open>
  Claim C2. When the walker has excluded addresses, the exclusion loop of \<open>walk\<close> marks
  every vertex of the graph \<open>ExplicitlyExcluded\<close> whose own targetable address, or that of
  a transitive dependency, is contained by an excluded address; a vertex already marked
  stays marked and no other label changes; the marks survive the targeting that follows.
  Hence a vertex that transitively depends on a vertex excluded by that rule is excluded,
  and when the marks of the filter were closed under "depends on" before (as in an empty
  filter), the marks on the graph are closed after.
\<close>

theorem exclusion_downward_closure:
  assumes "ExcludedAddrs w \<noteq> []"
  shows
  "(\<forall>v \<in> set (Vertices g).
       ((\<exists>t. getTargetable v = Some t \<and> (\<exists>x \<in> set (ExcludedAddrs w). TargetContains e x t))
        \<or> (\<exists>dep. (v, dep) \<in> (set (edges g))\<^sup>+
              \<and> (\<exists>t. getTargetable dep = Some t \<and> (\<exists>x \<in> set (ExcludedAddrs w). TargetContains e x t))))
       \<longrightarrow> Matches (applyExclusions (TargetContains e) g (ExcludedAddrs w) f) v ExplicitlyExcluded)
   \<and> (\<forall>v. Matches f v ExplicitlyExcluded
         \<longrightarrow> Matches (applyExclusions (TargetContains e) g (ExcludedAddrs w) f) v ExplicitlyExcluded)
   \<and> (\<forall>v. \<not> Matches (applyExclusions (TargetContains e) g (ExcludedAddrs w) f) v ExplicitlyExcluded
         \<longrightarrow> applyExclusions (TargetContains e) g (ExcludedAddrs w) f v = f v)
   \<and> (\<forall>u v. u \<in> set (Vertices g) \<and> (u, v) \<in> (set (edges g))\<^sup>+
           \<and> isExcluded (TargetContains e) g v (ExcludedAddrs w)
         \<longrightarrow> Matches (applyExclusions (TargetContains e) g (ExcludedAddrs w) f) u ExplicitlyExcluded)
   \<and> ((\<forall>u v. u \<in> set (Vertices g) \<and> (u, v) \<in> (set (edges g))\<^sup>+ \<and> Matches f v ExplicitlyExcluded
           \<longrightarrow> Matches f u ExplicitlyExcluded)
       \<longrightarrow> (\<forall>u v. u \<in> set (Vertices g) \<and> (u, v) \<in> (set (edges g))\<^sup>+
               \<and> Matches (applyExclusions (TargetContains e) g (ExcludedAddrs w) f) v ExplicitlyExcluded
             \<longrightarrow> Matches (applyExclusions (TargetContains e) g (ExcludedAddrs w) f) u ExplicitlyExcluded))
   \<and> ((\<forall>v. \<not> Matches f v ExplicitlyExcluded)
       \<longrightarrow> (\<forall>u v. u \<in> set (Vertices g) \<and> (u, v) \<in> (set (edges g))\<^sup>+
               \<and> Matches (applyExclusions (TargetContains e) g (ExcludedAddrs w) f) v ExplicitlyExcluded
             \<longrightarrow> Matches (applyExclusions (TargetContains e) g (ExcludedAddrs w) f) u ExplicitlyExcluded))
   \<and> (\<forall>v targets. Matches (applyExclusions (TargetContains e) g (ExcludedAddrs w) f) v ExplicitlyExcluded
         \<longrightarrow> Matches (preTraversal e w g targets f) v ExplicitlyExcluded)"
proof -
  let ?tc = "TargetContains e" and ?xs = "ExcludedAddrs w"
  let ?f' = "applyExclusions ?tc g ?xs f"
  have app: "\<And>u. ?f' u = (if u \<in> set (Vertices g) \<and> isExcluded ?tc g u ?xs
                           then Some ExplicitlyExcluded else f u)"
    using assms by (simp add: applyExclusions_apply)
  have anc: "\<And>u v. (u, v) \<in> (set (edges g))\<^sup>+ \<longleftrightarrow> v \<in> Ancestors g u"
    by (simp add: Ancestors_def)
  have c1: "\<forall>v \<in> set (Vertices g).
       ((\<exists>t. getTargetable v = Some t \<and> (\<exists>x \<in> set ?xs. ?tc x t))
        \<or> (\<exists>dep. (v, dep) \<in> (set (edges g))\<^sup>+
              \<and> (\<exists>t. getTargetable dep = Some t \<and> (\<exists>x \<in> set ?xs. ?tc x t))))
       \<longrightarrow> Matches ?f' v ExplicitlyExcluded"
  proof (intro ballI impI)
    fix v assume v: "v \<in> set (Vertices g)"
      and h: "(\<exists>t. getTargetable v = Some t \<and> (\<exists>x \<in> set ?xs. ?tc x t))
        \<or> (\<exists>dep. (v, dep) \<in> (set (edges g))\<^sup>+
              \<and> (\<exists>t. getTargetable dep = Some t \<and> (\<exists>x \<in> set ?xs. ?tc x t)))"
    from h have "isExcluded ?tc g v ?xs"
      unfolding isExcluded_iff anc by blast
    with v show "Matches ?f' v ExplicitlyExcluded" by (simp add: app Matches_def)
  qed
  have c2: "\<forall>v. Matches f v ExplicitlyExcluded \<longrightarrow> Matches ?f' v ExplicitlyExcluded"
    by (simp add: app Matches_def)
  have c3: "\<forall>v. \<not> Matches ?f' v ExplicitlyExcluded \<longrightarrow> ?f' v = f v"
    by (simp add: app Matches_def)
  have c4: "\<forall>u v. u \<in> set (Vertices g) \<and> (u, v) \<in> (set (edges g))\<^sup>+ \<and> isExcluded ?tc g v ?xs
         \<longrightarrow> Matches ?f' u ExplicitlyExcluded"
  proof (intro allI impI)
    fix u v assume h: "u \<in> set (Vertices g) \<and> (u, v) \<in> (set (edges g))\<^sup>+ \<and> isExcluded ?tc g v ?xs"
    then have "v \<in> Ancestors g u" by (simp add: anc)
    from isExcluded_dependent [OF this] h have "isExcluded ?tc g u ?xs" by simp
    with h show "Matches ?f' u ExplicitlyExcluded" by (simp add: app Matches_def)
  qed
  have c5: "(\<forall>u v. u \<in> set (Vertices g) \<and> (u, v) \<in> (set (edges g))\<^sup>+ \<and> Matches f v ExplicitlyExcluded
           \<longrightarrow> Matches f u ExplicitlyExcluded)
       \<longrightarrow> (\<forall>u v. u \<in> set (Vertices g) \<and> (u, v) \<in> (set (edges g))\<^sup>+
               \<and> Matches ?f' v ExplicitlyExcluded
             \<longrightarrow> Matches ?f' u ExplicitlyExcluded)"
  proof (intro allI impI)
    fix u v
    assume closed: "\<forall>u v. u \<in> set (Vertices g) \<and> (u, v) \<in> (set (edges g))\<^sup>+ \<and> Matches f v ExplicitlyExcluded
           \<longrightarrow> Matches f u ExplicitlyExcluded"
      and h: "u \<in> set (Vertices g) \<and> (u, v) \<in> (set (edges g))\<^sup>+ \<and> Matches ?f' v ExplicitlyExcluded"
    from h have "isExcluded ?tc g v ?xs \<or> Matches f v ExplicitlyExcluded"
      by (simp add: app Matches_def split: if_splits)
    then show "Matches ?f' u ExplicitlyExcluded"
    proof
      assume "isExcluded ?tc g v ?xs"
      with c4 h show ?thesis by blast
    next
      assume "Matches f v ExplicitlyExcluded"
      with closed h have "Matches f u ExplicitlyExcluded" by blast
      with c2 show ?thesis by blast
    qed
  qed
  have c6: "(\<forall>v. \<not> Matches f v ExplicitlyExcluded)
       \<longrightarrow> (\<forall>u v. u \<in> set (Vertices g) \<and> (u, v) \<in> (set (edges g))\<^sup>+
               \<and> Matches ?f' v ExplicitlyExcluded
             \<longrightarrow> Matches ?f' u ExplicitlyExcluded)"
  proof
    assume "\<forall>v. \<not> Matches f v ExplicitlyExcluded"
    then have "\<forall>u v. u \<in> set (Vertices g) \<and> (u, v) \<in> (set (edges g))\<^sup>+ \<and> Matches f v ExplicitlyExcluded
           \<longrightarrow> Matches f u ExplicitlyExcluded" by simp
    from mp [OF c5 this]
    show "\<forall>u v. u \<in> set (Vertices g) \<and> (u, v) \<in> (set (edges g))\<^sup>+
               \<and> Matches ?f' v ExplicitlyExcluded
             \<longrightarrow> Matches ?f' u ExplicitlyExcluded" .
  qed
  have c7: "\<forall>v targets. Matches ?f' v ExplicitlyExcluded
         \<longrightarrow> Matches (preTraversal e w g targets f) v ExplicitlyExcluded"
    by (simp add: preTraversal_def Matches_def applyTargets_keeps_excluded)
  show ?thesis
    by (rule conjI [OF c1 conjI [OF c2 conjI [OF c3 conjI [OF c4 conjI [OF c5 conjI [OF c6 c7]]]]]])
qed

lemma dependencyChain_edges:
  "(resA, resB) \<in> (set (edges dependencyChain))\<^sup>+"
  "(resA, resC) \<in> (set (edges dependencyChain))\<^sup>+"
  "Ancestors dependencyChain resC = {}"
  unfolding Ancestors_def dependencyChain_def resA_def resB_def resC_def rootNode_def
  by code_simp+

theorem exclusion_downward_closure_witness:
  "Matches (applyExclusions (=) dependencyChain [''B''] Map.empty) resB ExplicitlyExcluded
   \<and> Matches (applyExclusions (=) dependencyChain [''B''] Map.empty) resA ExplicitlyExcluded
   \<and> applyExclusions (=) dependencyChain [''B''] Map.empty resC = None
   \<and> Matches (preTraversal plainEnv (excludingWalker [''B'']) dependencyChain [] Map.empty) resA ExplicitlyExcluded
   \<and> Matches (preTraversal plainEnv (excludingWalker [''B'']) dependencyChain [] Map.empty) resC Allowed"
proof -
  have w: "ExcludedAddrs (excludingWalker [''B'']) \<noteq> []" "ExcludedAddrs (excludingWalker [''B'']) = [''B'']"
    by (simp_all add: excludingWalker_def)
  have tc: "TargetContains plainEnv = (=)" by (simp add: plainEnv_def)
  have vs: "set (Vertices dependencyChain) = {resA, resB, resC}"
    by (simp add: Vertices_def dependencyChain_def)
  have gB: "getTargetable resB = Some ''B''" and gC: "getTargetable resC = Some ''C''"
    by (simp_all add: getTargetable_def resB_def resC_def rootNode_def)
  note t = exclusion_downward_closure [OF w(1), of dependencyChain plainEnv Map.empty, unfolded w(2) tc]
  note c1 = t [THEN conjunct1]
  note c4 = t [THEN conjunct2, THEN conjunct2, THEN conjunct2, THEN conjunct1]
  note c7 = t [THEN conjunct2, THEN conjunct2, THEN conjunct2, THEN conjunct2, THEN conjunct2,
               THEN conjunct2]
  have inA: "resA \<in> set (Vertices dependencyChain)" and inB: "resB \<in> set (Vertices dependencyChain)"
    by (simp_all add: vs)
  have exB: "isExcluded (=) dependencyChain resB [''B'']"
    by (simp add: isExcluded_iff gB)
  have b: "Matches (applyExclusions (=) dependencyChain [''B''] Map.empty) resB ExplicitlyExcluded"
    using c1 [THEN bspec, OF inB] gB by simp
  have a: "Matches (applyExclusions (=) dependencyChain [''B''] Map.empty) resA ExplicitlyExcluded"
    using c4 [THEN spec, THEN spec, of resA resB] inA dependencyChain_edges(1) exB by simp
  have nc: "\<not> isExcluded (=) dependencyChain resC [''B'']"
    by (simp add: isExcluded_iff gC dependencyChain_edges(3))
  have c: "applyExclusions (=) dependencyChain [''B''] Map.empty resC = None"
    using nc by (simp add: applyExclusions_apply)
  have a': "Matches (preTraversal plainEnv (excludingWalker [''B'']) dependencyChain [] Map.empty) resA ExplicitlyExcluded"
    using c7 [THEN spec, THEN spec, of resA "[]"] a by simp
  have inC: "resC \<in> set (Vertices dependencyChain)" by (simp add: vs)
  have c': "Matches (preTraversal plainEnv (excludingWalker [''B'']) dependencyChain [] Map.empty) resC Allowed"
    using c inC by (simp add: preTraversal_def applyTargets_empty_apply Matches_def w(2) tc)
  from a b c a' c' show ?thesis by simp
qed





lemma twoResources_distinct:
  "dualAddressed \<noteq> configOnly" "dualAddressed \<noteq> rootNode" "configOnly \<noteq> rootNode"
  by (simp_all add: dualAddressed_def configOnly_def rootNode_def)



section \<open>Theorems about dynamic expansion\<close>






















end
